theory Spec2Isabelle
  imports Main "HOL-Library.Word"
begin

section \<open>The diagonal printer \<open>print_diagonal\<close> of \<open>7-print_diagonal.c\<close>\<close>

text \<open>
  The source is one C function, \<open>void print_diagonal(int n)\<close>, with two local
  counters \<open>col\<close> and \<open>row\<close> of type \<open>int\<close>:
  \<^item> if \<open>n <= 0\<close> it writes one newline;
  \<^item> otherwise \<open>for (col = 1; col <= n; col++)\<close> runs, for each \<open>col\<close>,
    \<open>for (row = 1; row < col; row++)\<close> writing a space, and then writes a
    backslash and a newline.

  A C \<open>int\<close> is taken to be 32 bits wide and is modelled as a 32-bit word read in
  two's complement: the comparisons of the source are the signed ones (\<open>\<le>s\<close>,
  \<open><s\<close>) and \<open>col++\<close>, \<open>row++\<close> are the word's \<open>+ 1\<close>. The C standard leaves an
  increment past the largest \<open>int\<close>, 2147483647, undefined; the model gives it the
  wrap-around value of two's complement hardware, -2147483648. The only increment
  that can get there is \<open>col++\<close> when \<open>n\<close> is the largest \<open>int\<close>.
\<close>

subsection \<open>Data\<close>

type_synonym c_int = "32 word"

abbreviation space :: char where "space \<equiv> CHR '' ''"
abbreviation backslash :: char where "backslash \<equiv> CHR 0x5C"
abbreviation newline :: char where "newline \<equiv> CHR 0x0A"

text \<open>
  What a run of the outer loop has come to when it is observed: it has left the loop
  (\<open>Returned\<close>, with the output stream at that point), or it is still inside the
  loop after the number of iterations it was observed for (\<open>Running\<close>, with the
  stream written so far).
\<close>

datatype outcome = Returned string | Running string

subsection \<open>The character-output primitive\<close>

text \<open>
  Modelled from the spec: \<open>_putchar\<close> is declared in holberton.h and defined outside
  the source file. The spec describes it as a single-character output primitive
  \<open>writeChar(c)\<close> that always succeeds and whose result is not inspected: it
  appends the character to the output stream. The stream is passed explicitly.
\<close>

definition putchar :: "char \<Rightarrow> string \<Rightarrow> string" where
  "putchar c out = out @ [c]"

subsection \<open>The loops\<close>

text \<open>
  \<open>for (row = 1; row < col; row++) _putchar(' ');\<close> entered with the given value of
  \<open>row\<close>. The guard \<open>row < col\<close> keeps \<open>row\<close> below the largest \<open>int\<close>, so the
  increment never wraps and the loop always ends.
\<close>

function inner_loop :: "c_int \<Rightarrow> c_int \<Rightarrow> string \<Rightarrow> string" where
  "inner_loop row col out =
     (if row <s col then inner_loop (row + 1) col (putchar space out) else out)"
  by pat_completeness auto
termination
proof (relation "measure (\<lambda>(row, col, out). nat (sint col - sint row))")
  show "wf (measure (\<lambda>(row :: c_int, col :: c_int, out :: string). nat (sint col - sint row)))"
    by simp
next
  fix row col :: c_int and out :: string
  assume "row <s col"
  then have lt: "sint row < sint col"
    by (simp add: word_sless_alt)
  have "sint col < 2 ^ 31" using sint_lt [of col] by simp
  moreover have "- (2 ^ 31) \<le> sint row" using sint_ge [of row] by simp
  ultimately have "- (2 ^ 31) \<le> sint row + 1" "sint row + 1 < 2 ^ 31"
    using lt by auto
  then have "sint (row + 1) = sint row + 1"
    by (simp add: sint_word_ariths signed_take_bit_int_eq_self)
  with lt show "((row + 1, col, putchar space out), (row, col, out))
                \<in> measure (\<lambda>(row, col, out). nat (sint col - sint row))"
    by simp
qed

declare inner_loop.simps [simp del]

text \<open>
  \<open>for (col = 1; col <= n; col++) { inner loop; _putchar(backslash); _putchar(newline); }\<close>
  entered with the given value of \<open>col\<close>. Nothing keeps \<open>col\<close> below the largest
  \<open>int\<close>, so the loop is run on fuel: one unit for each test of the guard. With the
  fuel used up the run is reported as \<open>Running\<close>, with what it has written.
\<close>

fun outer_loop :: "nat \<Rightarrow> c_int \<Rightarrow> c_int \<Rightarrow> string \<Rightarrow> outcome" where
  "outer_loop 0 col n out = Running out"
| "outer_loop (Suc fuel) col n out =
     (if col \<le>s n
      then outer_loop fuel (col + 1) n
             (putchar newline (putchar backslash (inner_loop 1 col out)))
      else Returned out)"

text \<open>The function itself: the branch on \<open>n <= 0\<close>, then the outer loop from \<open>col = 1\<close>.\<close>

definition print_diagonal :: "nat \<Rightarrow> c_int \<Rightarrow> string \<Rightarrow> outcome" where
  "print_diagonal fuel n out =
     (if n \<le>s 0 then Returned (putchar newline out) else outer_loop fuel 1 n out)"

subsection \<open>Reading an outcome\<close>

fun returned :: "outcome \<Rightarrow> bool" where
  "returned (Returned w) = True"
| "returned (Running w) = False"

fun written :: "outcome \<Rightarrow> string" where
  "written (Returned w) = w"
| "written (Running w) = w"

text \<open>The same outcome on a stream that already held \<open>pre\<close>.\<close>

fun after :: "string \<Rightarrow> outcome \<Rightarrow> outcome" where
  "after pre (Returned w) = Returned (pre @ w)"
| "after pre (Running w) = Running (pre @ w)"

subsection \<open>The output the specification describes\<close>

text \<open>
  Line \<open>i\<close> (1-indexed) of the specification: \<open>i - 1\<close> spaces, one backslash, one
  newline; and the \<open>n\<close> lines one after the other.
\<close>

definition diag_line :: "nat \<Rightarrow> string" where
  "diag_line i = replicate (i - 1) space @ [backslash, newline]"

definition diagonal :: "nat \<Rightarrow> string" where
  "diagonal n = concat (map diag_line [1..<Suc n])"

subsection \<open>Counting and splitting the output\<close>

text \<open>The number of newline characters of a stream, and of its other characters.\<close>

definition newline_chars :: "string \<Rightarrow> nat" where
  "newline_chars w = length (filter (\<lambda>c. c = newline) w)"

definition content_chars :: "string \<Rightarrow> nat" where
  "content_chars w = length (filter (\<lambda>c. c \<noteq> newline) w)"

text \<open>
  The rows of a stream: for each newline, the characters between the newline before it
  (or the start) and itself. Characters after the last newline belong to no row.
\<close>

fun rows_from :: "string \<Rightarrow> string \<Rightarrow> string list" where
  "rows_from cur [] = []"
| "rows_from cur (c # cs) =
     (if c = newline then cur # rows_from [] cs else rows_from (cur @ [c]) cs)"

definition rows :: "string \<Rightarrow> string list" where
  "rows w = rows_from [] w"

section \<open>Properties of the loops\<close>

lemma sint_of_nat_small: "c < 2 ^ 31 \<Longrightarrow> sint (of_nat c :: c_int) = int c"
  by (simp add: signed_of_nat signed_take_bit_int_eq_self)

lemma sint_upper: "sint (x :: c_int) \<le> 2147483647"
  using sint_lt [of x] by simp

text \<open>The inner loop from \<open>row = r\<close> writes \<open>c - r\<close> spaces.\<close>

lemma inner_loop_spaces:
  "1 \<le> r \<Longrightarrow> r \<le> c \<Longrightarrow> c < 2 ^ 31 \<Longrightarrow>
   inner_loop (of_nat r) (of_nat c) out = out @ replicate (c - r) space"
proof (induction "c - r" arbitrary: r out)
  case 0
  then show ?case
    by (simp add: inner_loop.simps [of "of_nat r"] word_sless_alt sint_of_nat_small)
next
  case (Suc d)
  then have lt: "r < c" and d: "d = c - Suc r" by auto
  have "inner_loop (of_nat r) (of_nat c) out
        = inner_loop (of_nat (Suc r)) (of_nat c) (out @ [space])"
    using lt Suc.prems
    by (simp add: inner_loop.simps [of "of_nat r"] word_sless_alt sint_of_nat_small
        putchar_def add.commute)
  also have "\<dots> = (out @ [space]) @ replicate (c - Suc r) space"
    using Suc.hyps(1) [OF d] lt Suc.prems by simp
  also have "\<dots> = out @ replicate (c - r) space"
    using lt by (simp add: Suc_diff_Suc replicate_append_same flip: replicate_Suc)
  finally show ?case .
qed

text \<open>One iteration of the outer loop at a column inside \<open>1..n\<close> writes that line.\<close>

lemma outer_loop_step:
  assumes "1 \<le> c" "int c \<le> sint n"
  shows "outer_loop (Suc fuel) (of_nat c) n out
         = outer_loop fuel (of_nat (Suc c)) n (out @ diag_line c)"
proof -
  have c: "c < 2 ^ 31" using assms(2) sint_upper [of n] by simp
  have "of_nat c \<le>s n" using assms(2) c by (simp add: word_sle_eq sint_of_nat_small)
  moreover have "inner_loop 1 (of_nat c) out = out @ replicate (c - 1) space"
    using inner_loop_spaces [of 1 c out] assms(1) c by simp
  ultimately show ?thesis
    by (simp add: putchar_def diag_line_def add.commute)
qed

text \<open>\<open>j\<close> iterations from column \<open>c\<close>, all inside \<open>1..n\<close>, write the lines \<open>c..c+j-1\<close>.\<close>

lemma outer_loop_rows:
  "1 \<le> c \<Longrightarrow> int c + int j \<le> sint n + 1 \<Longrightarrow>
   outer_loop (j + fuel) (of_nat c) n out
   = outer_loop fuel (of_nat (c + j)) n (out @ concat (map diag_line [c..<c + j]))"
proof (induction j arbitrary: c out)
  case 0
  then show ?case by simp
next
  case (Suc j)
  have "outer_loop (Suc j + fuel) (of_nat c) n out
        = outer_loop (j + fuel) (of_nat (Suc c)) n (out @ diag_line c)"
    using outer_loop_step [of c n "j + fuel" out] Suc.prems by simp
  also have "\<dots> = outer_loop fuel (of_nat (Suc c + j)) n
                     ((out @ diag_line c) @ concat (map diag_line [Suc c..<Suc c + j]))"
    using Suc.IH [of "Suc c" "out @ diag_line c"] Suc.prems by simp
  also have "(out @ diag_line c) @ concat (map diag_line [Suc c..<Suc c + j])
             = out @ concat (map diag_line [c..<c + Suc j])"
  proof -
    have "[c..<c + Suc j] = c # [Suc c..<Suc c + j]"
      using upt_conv_Cons [of c "c + Suc j"] by simp
    then show ?thesis by simp
  qed
  finally show ?case by simp
qed

text \<open>
  Below the largest \<open>int\<close> the outer loop returns, on any fuel above \<open>n\<close>, having
  written the \<open>n\<close> lines of the specification.
\<close>

lemma outer_loop_returns:
  assumes "0 < sint n" "sint n < 2147483647" "nat (sint n) < fuel"
  shows "outer_loop fuel 1 n out = Returned (out @ diagonal (nat (sint n)))"
proof -
  define N where "N = nat (sint n)"
  define k where "k = fuel - Suc N"
  have fuel: "fuel = N + Suc k"
    using assms(3) by (simp add: k_def N_def)
  have N: "int N = sint n" "N + 1 < 2 ^ 31" using assms N_def by auto
  have "outer_loop (N + Suc k) (of_nat 1) n out
        = outer_loop (Suc k) (of_nat (1 + N)) n (out @ concat (map diag_line [1..<1 + N]))"
    using outer_loop_rows [of 1 N n "Suc k" out] N by simp
  moreover have "\<not> (of_nat (1 + N) :: c_int) \<le>s n"
    using N sint_of_nat_small [of "1 + N"] by (simp add: word_sle_eq)
  ultimately show ?thesis
    using fuel by (simp add: diagonal_def N_def)
qed

lemma print_diagonal_returns:
  assumes "0 < sint n" "sint n < 2147483647" "nat (sint n) < fuel"
  shows "print_diagonal fuel n out = Returned (out @ diagonal (nat (sint n)))"
proof -
  have "\<not> n \<le>s 0" using assms(1) by (simp add: word_sle_eq)
  then show ?thesis
    using outer_loop_returns [OF assms] by (simp add: print_diagonal_def)
qed

text \<open>At the largest \<open>int\<close> the guard \<open>col <= n\<close> holds of every \<open>col\<close>.\<close>

lemma outer_loop_max_running:
  "\<not> returned (outer_loop fuel col 2147483647 out)"
proof (induction fuel arbitrary: col out)
  case 0
  then show ?case by simp
next
  case (Suc fuel)
  have "col \<le>s 2147483647" using sint_upper [of col] by (simp add: word_sle_eq)
  then show ?case using Suc.IH by simp
qed

text \<open>More fuel does not change a run that has returned.\<close>

lemma outer_loop_more_fuel:
  "outer_loop fuel col n out = Returned w \<Longrightarrow> outer_loop (fuel + j) col n out = Returned w"
proof (induction fuel arbitrary: col out)
  case 0
  then show ?case by simp
next
  case (Suc fuel)
  then show ?case by (cases "col \<le>s n") simp_all
qed

lemma print_diagonal_more_fuel:
  "print_diagonal fuel n out = Returned w \<Longrightarrow> print_diagonal (fuel + j) n out = Returned w"
  by (cases "n \<le>s 0") (simp_all add: print_diagonal_def outer_loop_more_fuel)

lemma inner_loop_append:
  "inner_loop row col (pre @ out) = pre @ inner_loop row col out"
proof (induction row col out rule: inner_loop.induct)
  case (1 row col out)
  show ?case
  proof (cases "row <s col")
    case True
    then show ?thesis
      using "1.IH" by (simp add: inner_loop.simps [of row] putchar_def)
  next
    case False
    then show ?thesis by (simp add: inner_loop.simps [of row])
  qed
qed

lemma outer_loop_append:
  "outer_loop fuel col n (pre @ out) = after pre (outer_loop fuel col n out)"
proof (induction fuel arbitrary: col out)
  case 0
  then show ?case by simp
next
  case (Suc fuel)
  show ?case
  proof (cases "col \<le>s n")
    case True
    then show ?thesis
      using Suc.IH [of "col + 1" "putchar newline (putchar backslash (inner_loop 1 col out))"]
      by (simp add: inner_loop_append putchar_def)
  next
    case False
    then show ?thesis by simp
  qed
qed

lemma print_diagonal_append:
  "print_diagonal fuel n (pre @ out) = after pre (print_diagonal fuel n out)"
  by (simp add: print_diagonal_def outer_loop_append putchar_def)

lemma written_after: "written (after pre r) = pre @ written r"
  by (cases r) simp_all

lemma returned_after: "returned (after pre r) = returned r"
  by (cases r) simp_all

lemma inner_loop_newlines:
  "newline_chars (inner_loop row col out) = newline_chars out"
proof (induction row col out rule: inner_loop.induct)
  case (1 row col out)
  show ?case
  proof (cases "row <s col")
    case True
    then show ?thesis
      using "1.IH" by (simp add: inner_loop.simps [of row] putchar_def newline_chars_def)
  next
    case False
    then show ?thesis by (simp add: inner_loop.simps [of row])
  qed
qed

lemma outer_loop_max_newlines:
  "newline_chars (written (outer_loop fuel col 2147483647 out)) = newline_chars out + fuel"
proof (induction fuel arbitrary: col out)
  case 0
  then show ?case by simp
next
  case (Suc fuel)
  have g: "col \<le>s 2147483647" using sint_upper [of col] by (simp add: word_sle_eq)
  have "newline_chars (putchar newline (putchar backslash (inner_loop 1 col out)))
        = Suc (newline_chars out)"
    using inner_loop_newlines [of 1 col out] by (simp add: putchar_def newline_chars_def)
  then show ?case
    using g Suc.IH [of "col + 1" "putchar newline (putchar backslash (inner_loop 1 col out))"]
    by simp
qed

lemma outer_loop_max_grows:
  "length (written (outer_loop fuel col 2147483647 out))
   < length (written (outer_loop (Suc fuel) col 2147483647 out))"
proof (induction fuel arbitrary: col out)
  case 0
  have "col \<le>s 2147483647" using sint_upper [of col] by (simp add: word_sle_eq)
  then show ?case
    using inner_loop_append [of 1 col out "[]"] by (simp add: putchar_def)
next
  case (Suc fuel)
  have g: "col \<le>s 2147483647" using sint_upper [of col] by (simp add: word_sle_eq)
  show ?case
    using g Suc.IH [of "col + 1" "putchar newline (putchar backslash (inner_loop 1 col out))"]
    by simp
qed

lemma diag_line_counts:
  "1 \<le> i \<Longrightarrow> content_chars (diag_line i) = i"
  "newline_chars (diag_line i) = 1"
  by (simp_all add: diag_line_def content_chars_def newline_chars_def)

lemma diagonal_Suc: "diagonal (Suc n) = diagonal n @ diag_line (Suc n)"
  by (simp add: diagonal_def)

lemma content_chars_append: "content_chars (u @ v) = content_chars u + content_chars v"
  by (simp add: content_chars_def)

lemma newline_chars_append: "newline_chars (u @ v) = newline_chars u + newline_chars v"
  by (simp add: newline_chars_def)

lemma diagonal_newlines: "newline_chars (diagonal n) = n"
  by (induction n) (simp_all add: diagonal_Suc newline_chars_append diag_line_counts, simp add: diagonal_def newline_chars_def)

lemma diagonal_content: "content_chars (diagonal n) = n + (\<Sum>i = 1..<n. i)"
proof (induction n)
  case 0
  then show ?case by (simp add: diagonal_def content_chars_def)
next
  case (Suc n)
  have "content_chars (diagonal (Suc n)) = content_chars (diagonal n) + Suc n"
    by (simp add: diagonal_Suc content_chars_append diag_line_counts)
  also have "\<dots> = Suc n + (\<Sum>i = 1..<Suc n. i)"
  proof (cases n)
    case 0
    then show ?thesis using Suc.IH by simp
  next
    case (Suc m)
    then show ?thesis using Suc.IH by simp
  qed
  finally show ?case .
qed

lemma sum_below: "2 * (\<Sum>i = 1..<n. i) = n * (n - 1)" for n :: nat
proof (induction n)
  case 0
  then show ?case by simp
next
  case (Suc n)
  then show ?case by (cases n) (simp_all add: algebra_simps)
qed

lemma rows_from_line:
  "newline \<notin> set xs \<Longrightarrow> rows_from cur (xs @ newline # rest) = (cur @ xs) # rows_from [] rest"
  by (induction xs arbitrary: cur) auto

lemma rows_diag_line:
  "rows (diag_line i @ rest) = (replicate (i - 1) space @ [backslash]) # rows rest"
  using rows_from_line [of "replicate (i - 1) space @ [backslash]" "[]" rest]
  by (simp add: rows_def diag_line_def)

lemma rows_diag_lines:
  "rows (concat (map diag_line ks) @ rest)
   = map (\<lambda>i. replicate (i - 1) space @ [backslash]) ks @ rows rest"
  by (induction ks) (simp_all add: rows_diag_line)

lemma max_positive: "\<not> (2147483647 :: c_int) \<le>s 0"
  by (simp add: word_sle_eq)

lemma positive_below_max:
  "0 <s n \<Longrightarrow> n <s 2147483647 \<Longrightarrow> 0 < sint n \<and> sint n < 2147483647" for n :: c_int
  by (simp add: word_sless_alt)

lemma returned_iff: "returned r \<longleftrightarrow> (\<exists>w. r = Returned w)"
  by (cases r) simp_all

text \<open>
  Below the largest \<open>int\<close> the next input adds one line, and every returned output
  ends with a newline.
\<close>

lemma print_diagonal_successor:
  assumes "0 <s n" "n <s 2147483646" "nat (sint n) + 1 < fuel"
  shows "print_diagonal fuel n out = Returned (out @ diagonal (nat (sint n))) \<and>
         print_diagonal fuel (n + 1) out
           = Returned (out @ diagonal (nat (sint n)) @ diag_line (nat (sint n) + 1))"
proof -
  have n: "0 < sint n" "sint n < 2147483646"
    using assms(1,2) by (simp_all add: word_sless_alt)
  then have s: "sint (n + 1) = sint n + 1"
    by (simp add: sint_word_ariths signed_take_bit_int_eq_self)
  have "print_diagonal fuel n out = Returned (out @ diagonal (nat (sint n)))"
    using print_diagonal_returns [of n fuel out] n assms(3) by simp
  moreover have "print_diagonal fuel (n + 1) out
                 = Returned (out @ diagonal (nat (sint (n + 1))))"
    using print_diagonal_returns [of "n + 1" fuel out] n s assms(3) by simp
  moreover have "nat (sint (n + 1)) = Suc (nat (sint n))"
    using n s by simp
  ultimately show ?thesis
    by (simp add: diagonal_Suc)
qed

lemma print_diagonal_ends_line:
  assumes "n <s 2147483647" "nat (sint n) < fuel"
  shows "returned (print_diagonal fuel n []) \<and>
         written (print_diagonal fuel n []) \<noteq> [] \<and>
         last (written (print_diagonal fuel n [])) = newline"
proof (cases "n \<le>s 0")
  case True
  then show ?thesis by (simp add: print_diagonal_def putchar_def)
next
  case False
  then have n: "0 < sint n" "sint n < 2147483647"
    using assms(1) by (simp_all add: word_sle_eq word_sless_alt)
  then obtain m where m: "nat (sint n) = Suc m"
    by (cases "nat (sint n)") simp_all
  have "print_diagonal fuel n [] = Returned (diagonal (Suc m))"
    using print_diagonal_returns [of n fuel "[]"] n assms(2) m by simp
  then show ?thesis
    by (simp add: diagonal_Suc diag_line_def)
qed

section \<open>The claims\<close>

text \<open>
  C1. For every \<open>n > 0\<close>, \<open>print_diagonal(n)\<close> writes exactly \<open>n\<close> lines, line
  \<open>i\<close> being \<open>i - 1\<close> spaces, one backslash and one newline. For
  \<open>0 < n < 2147483647\<close> this is \<open>print_diagonal_returns\<close>. At the largest
  \<open>int\<close>, \<open>n = 2147483647\<close>, the guard \<open>col <= n\<close> holds of every \<open>col\<close> and
  the increment of \<open>col\<close> wraps: the \<open>n\<close> lines are never what the call returns,
  and a run observed after \<open>fuel\<close> iterations has written \<open>fuel\<close> lines, more than
  \<open>n\<close> as soon as \<open>fuel\<close> exceeds \<open>n\<close>.
\<close>

theorem print_diagonal_int_max_lines:
  "print_diagonal fuel 2147483647 [] \<noteq> Returned (diagonal 2147483647) \<and>
   newline_chars (written (print_diagonal fuel 2147483647 [])) = fuel"
proof -
  have "\<not> returned (print_diagonal fuel 2147483647 [])"
    using outer_loop_max_running [of fuel 1 "[]"] max_positive
    by (simp add: print_diagonal_def)
  then have "print_diagonal fuel 2147483647 [] \<noteq> Returned (diagonal 2147483647)"
    by (cases "print_diagonal fuel 2147483647 []") simp_all
  moreover have "newline_chars (written (print_diagonal fuel 2147483647 [])) = fuel"
    using outer_loop_max_newlines [of fuel 1 "[]"] max_positive
    by (simp add: print_diagonal_def newline_chars_def)
  ultimately show ?thesis by simp
qed

text \<open>
  C2. For every \<open>n <= 0\<close>, negative values included, \<open>print_diagonal(n)\<close> writes
  exactly one newline character and nothing else: on any stream, and whatever the fuel
  (the loop is not entered), the call returns with one newline appended.
\<close>

theorem print_diagonal_nonpositive:
  "n \<le>s 0 \<Longrightarrow> print_diagonal fuel n out = Returned (out @ [newline])"
  by (simp add: print_diagonal_def putchar_def)

theorem print_diagonal_nonpositive_witness:
  "(- 5 :: c_int) \<le>s 0 \<and> print_diagonal 0 (- 5) [] = Returned [newline]"
proof -
  have h: "(- 5 :: c_int) \<le>s 0"
    by (simp add: word_sle_eq)
  show ?thesis
    using h print_diagonal_nonpositive [OF h, of 0 "[]"] by simp
qed

text \<open>
  C3. For every \<open>n > 0\<close> the number of characters other than newlines is claimed to
  be \<open>n + 2 * (1 + ... + (n - 1)) = n + n * (n - 1)\<close>, and the number of newlines
  \<open>n\<close>. Line \<open>i\<close> holds \<open>i - 1\<close> spaces and one backslash, so the sum of the
  spaces is counted once, not twice: at \<open>n = 2\<close> the call writes 3 such characters
  (one backslash, then one space and one backslash), not \<open>2 + 2 * 1 = 4\<close>.
\<close>

theorem print_diagonal_count_counterexample:
  "returned (print_diagonal 3 2 []) \<and>
   content_chars (written (print_diagonal 3 2 [])) = 3 \<and>
   content_chars (written (print_diagonal 3 2 [])) \<noteq> 2 + 2 * 1 \<and>
   content_chars (written (print_diagonal 3 2 [])) \<noteq> 2 + 2 * (2 - 1)"
proof -
  have "print_diagonal 3 2 [] = Returned [backslash, newline, space, backslash, newline]"
    by code_simp
  then show ?thesis by (simp add: content_chars_def)
qed

text \<open>
  C3, as amended. For every \<open>n\<close> with \<open>0 < n < 2147483647\<close> the call returns (on
  any fuel above \<open>n\<close>) having written \<open>n + (1 + ... + (n - 1)) = n * (n + 1) / 2\<close>
  characters other than newlines, and \<open>n\<close> newlines.
\<close>

theorem print_diagonal_counts:
  assumes "0 <s n" "n <s 2147483647" "nat (sint n) < fuel"
  shows "returned (print_diagonal fuel n []) \<and>
         content_chars (written (print_diagonal fuel n []))
           = nat (sint n) + (\<Sum>i = 1..<nat (sint n). i) \<and>
         2 * content_chars (written (print_diagonal fuel n []))
           = nat (sint n) * (nat (sint n) + 1) \<and>
         newline_chars (written (print_diagonal fuel n [])) = nat (sint n)"
proof -
  define N where "N = nat (sint n)"
  have r: "print_diagonal fuel n [] = Returned (diagonal N)"
    using print_diagonal_returns [of n fuel "[]"] positive_below_max [OF assms(1,2)] assms(3)
    by (simp add: N_def)
  have c: "content_chars (diagonal N) = N + (\<Sum>i = 1..<N. i)"
    by (rule diagonal_content)
  have "2 * content_chars (diagonal N) = 2 * N + N * (N - 1)"
    using c sum_below [of N] by simp
  also have "\<dots> = N * (N + 1)"
    by (cases N) simp_all
  finally have d: "2 * content_chars (diagonal N) = N * (N + 1)" .
  show ?thesis
    using r c d diagonal_newlines [of N] by (simp add: N_def)
qed

theorem print_diagonal_counts_witness:
  "(0 :: c_int) <s 3 \<and> (3 :: c_int) <s 2147483647 \<and> nat (sint (3 :: c_int)) < 4 \<and>
   returned (print_diagonal 4 3 []) \<and>
   content_chars (written (print_diagonal 4 3 [])) = 6 \<and>
   newline_chars (written (print_diagonal 4 3 [])) = 3"
proof -
  have a: "(0 :: c_int) <s 3" by (simp add: word_sless_alt)
  have b: "(3 :: c_int) <s 2147483647" by (simp add: word_sless_alt)
  have c: "nat (sint (3 :: c_int)) < 4" by simp
  have "(\<Sum>i = 1..<(3::nat). i) = 3"
    by (simp add: numeral_3_eq_3)
  then show ?thesis
    using a b c print_diagonal_counts [OF a b c] by simp
qed

text \<open>
  C4. For every \<open>n > 0\<close> and every \<open>i\<close> with \<open>1 <= i <= n\<close>, row \<open>i\<close> of the
  output of \<open>print_diagonal(n)\<close> has exactly \<open>i\<close> characters before its newline.
  The output is read wherever the run is observed once row \<open>i\<close> is written
  (\<open>i \<le> fuel\<close>): for \<open>n < 2147483647\<close> and fuel above \<open>n\<close> that is the output of
  the returned call, and at \<open>n = 2147483647\<close>, where the call does not return, the
  rows \<open>1..n\<close> of what it writes are covered as well.
\<close>

theorem print_diagonal_row_length:
  assumes "0 <s n" "1 \<le> i" "int i \<le> sint n" "i \<le> fuel"
  shows "i \<le> length (rows (written (print_diagonal fuel n []))) \<and>
         length (rows (written (print_diagonal fuel n [])) ! (i - 1)) = i"
proof -
  define k where "k = fuel - i"
  have fuel: "fuel = i + k" using assms(4) by (simp add: k_def)
  have pos: "\<not> n \<le>s 0" using assms(1) by (simp add: word_sless_alt word_sle_eq)
  have "outer_loop (i + k) (of_nat 1) n []
        = outer_loop k (of_nat (1 + i)) n ([] @ concat (map diag_line [1..<1 + i]))"
    using outer_loop_rows [of 1 i n k "[]"] assms(3) by simp
  also have "\<dots> = after (diagonal i) (outer_loop k (of_nat (1 + i)) n [])"
    using outer_loop_append [of k "of_nat (1 + i)" n "diagonal i" "[]"]
    by (simp add: diagonal_def)
  finally have "print_diagonal fuel n [] = after (diagonal i) (outer_loop k (of_nat (1 + i)) n [])"
    using pos fuel by (simp add: print_diagonal_def)
  then have "written (print_diagonal fuel n [])
             = diagonal i @ written (outer_loop k (of_nat (1 + i)) n [])"
    by (simp add: written_after)
  then have rs: "rows (written (print_diagonal fuel n []))
        = map (\<lambda>i. replicate (i - 1) space @ [backslash]) [1..<Suc i]
          @ rows (written (outer_loop k (of_nat (1 + i)) n []))"
    by (simp add: diagonal_def rows_diag_lines)
  have "(map (\<lambda>i. replicate (i - 1) space @ [backslash]) [1..<Suc i]) ! (i - 1)
        = replicate (i - 1) space @ [backslash]"
    using assms(2) by (simp add: nth_append)
  then show ?thesis
    using assms(2) rs by (simp add: nth_append)
qed

theorem print_diagonal_row_length_witness:
  "(0 :: c_int) <s 3 \<and> (1::nat) \<le> 2 \<and> int 2 \<le> sint (3 :: c_int) \<and> (2::nat) \<le> 5 \<and>
   2 \<le> length (rows (written (print_diagonal 5 3 []))) \<and>
   length (rows (written (print_diagonal 5 3 [])) ! (2 - 1)) = 2"
proof -
  have a: "(0 :: c_int) <s 3" by (simp add: word_sless_alt)
  have b: "(1::nat) \<le> 2" by simp
  have c: "int 2 \<le> sint (3 :: c_int)" by simp
  have d: "(2::nat) \<le> 5" by simp
  show ?thesis
    using a b c d print_diagonal_row_length [OF a b c d] by simp
qed

text \<open>
  C5. For \<open>n = 1\<close>, \<open>n = 3\<close> and \<open>n = 4\<close> the output is exactly: backslash newline;
  backslash newline, space backslash newline, two spaces backslash newline; and the
  same followed by three spaces backslash newline. The call returns on every fuel
  above \<open>n\<close>.
\<close>

theorem print_diagonal_examples:
  "print_diagonal (2 + k) 1 [] = Returned [backslash, newline] \<and>
   print_diagonal (4 + k) 3 [] =
     Returned [backslash, newline,
               space, backslash, newline,
               space, space, backslash, newline] \<and>
   print_diagonal (5 + k) 4 [] =
     Returned [backslash, newline,
               space, backslash, newline,
               space, space, backslash, newline,
               space, space, space, backslash, newline]"
proof -
  have "print_diagonal 2 1 [] = Returned [backslash, newline]"
    by code_simp
  then have one: "print_diagonal (2 + k) 1 [] = Returned [backslash, newline]"
    by (rule print_diagonal_more_fuel)
  have "print_diagonal 4 3 [] =
     Returned [backslash, newline,
               space, backslash, newline,
               space, space, backslash, newline]"
    by code_simp
  then have three: "print_diagonal (4 + k) 3 [] =
     Returned [backslash, newline,
               space, backslash, newline,
               space, space, backslash, newline]"
    by (rule print_diagonal_more_fuel)
  have "print_diagonal 5 4 [] =
     Returned [backslash, newline,
               space, backslash, newline,
               space, space, backslash, newline,
               space, space, space, backslash, newline]"
    by code_simp
  then have four: "print_diagonal (5 + k) 4 [] =
     Returned [backslash, newline,
               space, backslash, newline,
               space, space, backslash, newline,
               space, space, space, backslash, newline]"
    by (rule print_diagonal_more_fuel)
  from one three four show ?thesis by blast
qed

text \<open>
  C6. The output is a function of \<open>n\<close> alone, with no state carried between calls.
  The only state the function reads or writes is the stream it is handed, and what it
  appends does not depend on what the stream already held: a call on a stream holding
  \<open>out\<close> has the outcome of a call on a fresh stream, after \<open>out\<close>. So two calls
  with the same \<open>n\<close>, each on a fresh stream or one after the other, write the same
  characters. A call that has returned has the same outcome on any larger fuel: the
  fuel of the model is no hidden input either.
\<close>

theorem print_diagonal_deterministic:
  "print_diagonal fuel n out = after out (print_diagonal fuel n []) \<and>
   (returned (print_diagonal fuel n out) \<longrightarrow>
      print_diagonal (fuel + more) n out = print_diagonal fuel n out)"
proof -
  have "print_diagonal fuel n out = after out (print_diagonal fuel n [])"
    using print_diagonal_append [of fuel n out "[]"] by simp
  moreover have "print_diagonal (fuel + more) n out = print_diagonal fuel n out"
    if "returned (print_diagonal fuel n out)"
  proof -
    from that have "\<exists>w. print_diagonal fuel n out = Returned w"
      by (simp add: returned_iff)
    then obtain w where w: "print_diagonal fuel n out = Returned w" ..
    then show ?thesis
      using print_diagonal_more_fuel [of fuel n out w more] by simp
  qed
  ultimately show ?thesis by simp
qed

theorem print_diagonal_deterministic_witness:
  "returned (print_diagonal 4 3 [backslash, newline]) \<and>
   print_diagonal (4 + 7) 3 [backslash, newline] = print_diagonal 4 3 [backslash, newline] \<and>
   print_diagonal 4 3 [backslash, newline] = after [backslash, newline] (print_diagonal 4 3 [])"
proof -
  have r: "returned (print_diagonal 4 3 [backslash, newline])"
    by code_simp
  show ?thesis
    using r print_diagonal_deterministic [of 4 3 "[backslash, newline]" 7] by blast
qed

text \<open>
  C7. The function is claimed to complete normally for every \<open>n\<close>. For
  \<open>n < 2147483647\<close> it does (\<open>print_diagonal_ends_line\<close>). At \<open>n = 2147483647\<close>
  the counter \<open>col\<close> is incremented past the largest \<open>int\<close> (undefined in C; here
  it wraps), and the call does not return, on any stream and however long it is run.
\<close>

theorem print_diagonal_int_max_never_returns:
  "\<not> returned (print_diagonal fuel 2147483647 out)"
  using outer_loop_max_running [of fuel 1 out] max_positive
  by (simp add: print_diagonal_def)

text \<open>
  C8. The function is claimed to terminate for every \<open>n\<close>, its loops bounded by
  \<open>n\<close>. With \<open>n = 2147483647\<close> the iteration at \<open>col = 2147483647\<close> writes its
  line and goes on with \<open>col = -2147483648\<close>, and no value of \<open>col\<close> ever leaves
  the loop: the number of iterations is not bounded by \<open>n\<close>.
\<close>

theorem outer_loop_int_max_wraps:
  "outer_loop (Suc fuel) 2147483647 2147483647 out
     = outer_loop fuel (- 2147483648) 2147483647 (out @ diag_line 2147483647) \<and>
   \<not> returned (outer_loop fuel col 2147483647 out)"
proof -
  have step: "outer_loop (Suc fuel) (of_nat 2147483647) 2147483647 out
        = outer_loop fuel (of_nat (Suc 2147483647)) 2147483647 (out @ diag_line 2147483647)"
    by (rule outer_loop_step) simp_all
  have last: "(of_nat 2147483647 :: c_int) = 2147483647"
    by simp
  have wrapped: "(of_nat (Suc 2147483647) :: c_int) = - 2147483648"
    by simp
  have "outer_loop (Suc fuel) 2147483647 2147483647 out
     = outer_loop fuel (- 2147483648) 2147483647 (out @ diag_line 2147483647)"
    using step unfolding last wrapped .
  then show ?thesis
    using outer_loop_max_running [of fuel col out] by blast
qed

text \<open>
  C9. For every \<open>n >= 1\<close> the output of \<open>print_diagonal(n + 1)\<close> is claimed to be
  the output of \<open>print_diagonal(n)\<close> followed by one more line. For
  \<open>n < 2147483646\<close> it is (\<open>print_diagonal_successor\<close>). At \<open>n = 2147483646\<close> the
  call for \<open>n\<close> returns its \<open>n\<close> lines, and the call for \<open>n + 1 = 2147483647\<close>
  never returns them followed by line \<open>n + 1\<close>.
\<close>

theorem print_diagonal_successor_int_max:
  "print_diagonal (2147483647 + k) 2147483646 [] = Returned (diagonal 2147483646) \<and>
   print_diagonal fuel (2147483646 + 1) []
     \<noteq> Returned (diagonal 2147483646 @ diag_line 2147483647)"
proof -
  have "print_diagonal (2147483647 + k) 2147483646 []
        = Returned ([] @ diagonal (nat (sint (2147483646 :: c_int))))"
    by (rule print_diagonal_returns) simp_all
  then have a: "print_diagonal (2147483647 + k) 2147483646 [] = Returned (diagonal 2147483646)"
    by simp
  have "\<not> returned (print_diagonal fuel 2147483647 [])"
    using outer_loop_max_running [of fuel 1 "[]"] max_positive
    by (simp add: print_diagonal_def)
  then have "print_diagonal fuel (2147483646 + 1) []
     \<noteq> Returned (diagonal 2147483646 @ diag_line 2147483647)"
    by (cases "print_diagonal fuel 2147483647 []") simp_all
  with a show ?thesis by simp
qed

text \<open>
  C10. For every \<open>n\<close> the output is claimed to be non-empty and to end with a
  newline. For \<open>n < 2147483647\<close> it does (\<open>print_diagonal_ends_line\<close>). At
  \<open>n = 2147483647\<close> the call does not return and each further iteration makes the
  output longer: it has no final character.
\<close>

theorem print_diagonal_int_max_no_last:
  "\<not> returned (print_diagonal fuel 2147483647 []) \<and>
   length (written (print_diagonal fuel 2147483647 []))
     < length (written (print_diagonal (Suc fuel) 2147483647 []))"
proof -
  have "\<not> returned (print_diagonal fuel 2147483647 [])"
    using outer_loop_max_running [of fuel 1 "[]"] max_positive
    by (simp add: print_diagonal_def)
  moreover have "length (written (print_diagonal fuel 2147483647 []))
     < length (written (print_diagonal (Suc fuel) 2147483647 []))"
    using outer_loop_max_grows [of fuel 1 "[]"] max_positive
    by (simp add: print_diagonal_def del: outer_loop.simps)
  ultimately show ?thesis by simp
qed

end
